theory Spec2Isabelle
  imports Main
begin

section \<open>Strings of the host language\<close>

text \<open>
  A source string is a sequence of code units; it is modelled as a \<open>string\<close>, one
  \<open>char\<close> per code unit, so that \<open>length\<close> is the source's \<open>.length\<close> and
  \<open>take\<close>/\<open>drop\<close> are its \<open>substr\<close>/\<open>substring\<close>. Numbers of the source that hold
  line and column values are integers.
\<close>

definition newline :: char where
  "newline = CHR 0x0A"

text \<open>
  The regular expression of \<open>parseSnippet\<close>, \<^verbatim>\<open>/\$(0|\{0:([^}]*)\})/\<close>, tried at the
  head of a string: a dollar sign followed by \<^verbatim>\<open>0\<close>, or by \<^verbatim>\<open>{0:\<close>, any number of
  characters other than the closing brace, and the closing brace. The result is the
  matched text \<open>m[0]\<close> and the second capture group \<open>m[2]\<close>, which is undefined
  (\<open>None\<close>) when the first alternative matched.
\<close>

definition match_here :: "string \<Rightarrow> (string \<times> string option) option" where
  "match_here s =
     (if take 2 s = ''$0'' then Some (''$0'', None)
      else if take 4 s = ''${0:'' then
        (let d = takeWhile (\<lambda>c. c \<noteq> CHR ''}'') (drop 4 s) in
         if length d < length (drop 4 s) then Some (''${0:'' @ d @ ''}'', Some d) else None)
      else None)"

text \<open>
  \<open>snip.match(re)\<close> for a regular expression without the global flag: the leftmost
  position where the expression matches, as \<open>(m.index, m[0], m[2])\<close>, or \<open>None\<close> for
  \<open>null\<close>.
\<close>

fun regex_match :: "string \<Rightarrow> (nat \<times> string \<times> string option) option" where
  "regex_match [] = None"
| "regex_match (c # cs) =
     (case match_here (c # cs) of
        Some (m0, m2) \<Rightarrow> Some (0, m0, m2)
      | None \<Rightarrow>
         (case regex_match cs of
            Some (i, m0, m2) \<Rightarrow> Some (Suc i, m0, m2)
          | None \<Rightarrow> None))"

text \<open>\<open>str.indexOf(pat)\<close>: the first position where \<open>pat\<close> occurs, \<open>None\<close> for \<open>-1\<close>.\<close>

fun indexOf :: "string \<Rightarrow> string \<Rightarrow> nat option" where
  "indexOf [] pat = (if pat = [] then Some 0 else None)"
| "indexOf (c # cs) pat =
     (if take (length pat) (c # cs) = pat then Some 0
      else map_option Suc (indexOf cs pat))"

text \<open>
  The replacement template of \<open>String.prototype.replace\<close> when the pattern is a string
  (no capture groups): \<^verbatim>\<open>$$\<close> stands for a dollar sign, \<^verbatim>\<open>$&\<close> for the matched text,
  \<^verbatim>\<open>$`\<close> for the text before the match and \<^verbatim>\<open>$'\<close> for the text after it; every other
  character, a dollar sign before anything else included, stands for itself.
\<close>

fun getSubstitution :: "string \<Rightarrow> string \<Rightarrow> nat \<Rightarrow> string \<Rightarrow> string" where
  "getSubstitution matched str position (c1 # c2 # rest) =
     (if c1 = CHR ''$'' \<and> c2 = CHR ''$'' then
        CHR ''$'' # getSubstitution matched str position rest
      else if c1 = CHR ''$'' \<and> c2 = CHR ''&'' then
        matched @ getSubstitution matched str position rest
      else if c1 = CHR ''$'' \<and> c2 = CHR 0x60 then
        take position str @ getSubstitution matched str position rest
      else if c1 = CHR ''$'' \<and> c2 = CHR 0x27 then
        drop (position + length matched) str @ getSubstitution matched str position rest
      else c1 # getSubstitution matched str position (c2 # rest))"
| "getSubstitution matched str position template = template"

text \<open>
  \<open>str.replace(searchString, replaceValue)\<close> with two strings: the first occurrence of
  \<open>searchString\<close> is replaced by the expansion of the template \<open>replaceValue\<close>; a string
  without the occurrence is returned as it is.
\<close>

definition js_replace :: "string \<Rightarrow> string \<Rightarrow> string \<Rightarrow> string" where
  "js_replace str searchString replaceValue =
     (case indexOf str searchString of
        None \<Rightarrow> str
      | Some position \<Rightarrow>
          take position str @ getSubstitution searchString str position replaceValue
            @ drop (position + length searchString) str)"

text \<open>\<open>str.lastIndexOf(c)\<close> for a one-character string: the last position of \<open>c\<close>, or \<open>-1\<close>.\<close>

definition lastIndexOf :: "string \<Rightarrow> char \<Rightarrow> int" where
  "lastIndexOf s c =
     (if c \<in> set s then int (length s) - 1 - int (length (takeWhile (\<lambda>x. x \<noteq> c) (rev s)))
      else - 1)"

section \<open>The snippet marker parser\<close>

text \<open>
  \<^verbatim>\<open>
  function parseSnippet(snip: string): [string, [number, number]] | undefined {
    const m = snip.match(/\$(0|\{0:([^}]*)\})/);
    if (!m) return undefined;
    const placeholder = m[2] ?? '';
    const range: [number, number] = [m.index!, placeholder.length];
    const insert = snip.replace(m[0], placeholder);
    return [insert, range];
  }
  \<close>
\<close>

definition parseSnippet :: "string \<Rightarrow> (string \<times> (nat \<times> nat)) option" where
  "parseSnippet snip =
     (case regex_match snip of
        None \<Rightarrow> None
      | Some (index, m0, m2) \<Rightarrow>
          (let placeholder = (case m2 of Some d \<Rightarrow> d | None \<Rightarrow> '''');
               range = (index, length placeholder);
               insert = js_replace snip m0 placeholder
           in Some (insert, range)))"

text \<open>\<open>countLines\<close>: the number of matches of \<^verbatim>\<open>/\n/g\<close>, the line breaks of the text.\<close>

definition countLines :: "string \<Rightarrow> nat" where
  "countLines text = length (filter (\<lambda>c. c = newline) text)"

section \<open>Edits and the document store\<close>

record Position =
  line :: int
  character :: int

record Range =
  start :: Position
  end' :: Position

record TextEdit =
  range :: Range
  newText :: string

record TextDocumentIdentifier =
  uri :: string
  version :: "int option"

record TextDocumentEdit =
  textDocument :: TextDocumentIdentifier
  edits :: "TextEdit list"

text \<open>
  A document change is a text-document edit or one of the file operations; only the
  first passes \<open>TextDocumentEdit.is\<close>.
\<close>

datatype DocumentChange =
    TextDocumentChange TextDocumentEdit
  | CreateFile string
  | RenameFile string string
  | DeleteFile string

record WorkspaceEdit =
  changes :: "(string \<times> TextEdit list) list option"
  documentChanges :: "DocumentChange list option"

definition Range_create :: "int \<Rightarrow> int \<Rightarrow> int \<Rightarrow> int \<Rightarrow> Range" where
  "Range_create startLine startCharacter endLine endCharacter =
     \<lparr>start = \<lparr>line = startLine, character = startCharacter\<rparr>,
      end' = \<lparr>line = endLine, character = endCharacter\<rparr>\<rparr>"

definition TextEdit_replace :: "Range \<Rightarrow> string \<Rightarrow> TextEdit" where
  "TextEdit_replace r t = \<lparr>range = r, newText = t\<rparr>"

definition TextDocumentEdit_create :: "TextDocumentIdentifier \<Rightarrow> TextEdit list \<Rightarrow> TextDocumentEdit" where
  "TextDocumentEdit_create doc es = \<lparr>textDocument = doc, edits = es\<rparr>"

text \<open>
  The document store belongs to the editor. The applier's effect on it is the sequence
  of operations it awaits, in order: \<open>workspace.applyEdit\<close>, \<open>workspace.loadFile\<close>,
  \<open>workspace.jumpTo\<close> and \<open>workspace.selectRange\<close>. Each operation is taken to complete;
  the source discards the result of \<open>workspace.applyEdit\<close> and catches nothing.
\<close>

datatype StoreCall =
    ApplyEdit WorkspaceEdit
  | LoadFile string
  | JumpTo string
  | SelectRange Range

section \<open>The grouped edit applier\<close>

text \<open>
  The variables of the loop of \<open>applySnippetWorkspaceEdit\<close>: \<open>selection\<close>, \<open>lineDelta\<close>,
  and the store operations awaited so far.
\<close>

record LoopState =
  selection :: "Range option"
  lineDelta :: int
  calls :: "StoreCall list"

definition initial :: LoopState where
  "initial = \<lparr>selection = None, lineDelta = 0, calls = []\<rparr>"

text \<open>
  One iteration of \<^verbatim>\<open>for (const indel of change.edits)\<close>:
  \<^verbatim>\<open>
  const wsEdit: WorkspaceEdit = {};
  const parsed = parseSnippet(indel.newText);
  if (parsed) {
    const [newText, [placeholderStart, placeholderLength]] = parsed;
    const prefix = newText.substr(0, placeholderStart);
    const lastNewline = prefix.lastIndexOf('\n');
    const startLine = indel.range.start.line + lineDelta + countLines(prefix);
    const startColumn = lastNewline === -1
      ? indel.range.start.character + placeholderStart : prefix.length - lastNewline - 1;
    const endColumn = startColumn + placeholderLength;
    selection = Range.create(startLine, startColumn, startLine, endColumn);
    const newChange = TextDocumentEdit.create(change.textDocument,
      [TextEdit.replace(indel.range, newText)]);
    wsEdit.documentChanges = [newChange];
  } else {
    lineDelta = countLines(indel.newText) - (indel.range.end.line - indel.range.start.line);
    wsEdit.documentChanges = [change];
  }
  await workspace.applyEdit(wsEdit);
  \<close>
\<close>

definition step :: "TextDocumentEdit \<Rightarrow> LoopState \<Rightarrow> TextEdit \<Rightarrow> LoopState" where
  "step change st indel =
     (case parseSnippet (newText indel) of
        Some (newText', (placeholderStart, placeholderLength)) \<Rightarrow>
          (let prefix = take placeholderStart newText';
               lastNewline = lastIndexOf prefix newline;
               startLine = line (start (range indel)) + lineDelta st + int (countLines prefix);
               startColumn =
                 (if lastNewline = - 1
                  then character (start (range indel)) + int placeholderStart
                  else int (length prefix) - lastNewline - 1);
               endColumn = startColumn + int placeholderLength;
               newChange = TextDocumentEdit_create (textDocument change)
                 [TextEdit_replace (range indel) newText']
           in st\<lparr>selection := Some (Range_create startLine startColumn startLine endColumn),
                 calls := calls st @
                   [ApplyEdit \<lparr>changes = None,
                      documentChanges = Some [TextDocumentChange newChange]\<rparr>]\<rparr>)
      | None \<Rightarrow>
          st\<lparr>lineDelta := int (countLines (newText indel))
                 - (line (end' (range indel)) - line (start (range indel))),
             calls := calls st @
               [ApplyEdit \<lparr>changes = None,
                  documentChanges = Some [TextDocumentChange change]\<rparr>]\<rparr>)"

definition run_loop :: "TextDocumentEdit \<Rightarrow> LoopState" where
  "run_loop change = foldl (step change) initial (edits change)"

text \<open>
  \<open>applySnippetWorkspaceEdit\<close>. The second argument is the identity of the store's
  active document as \<open>workspace.document\<close> gives it after the loop. The result is the
  sequence of store operations the call awaits.
  \<^verbatim>\<open>
  if (!edit.documentChanges?.length) { return; }
  let selection: Range | undefined = undefined;
  let lineDelta = 0;
  const change = edit.documentChanges[0];
  if (TextDocumentEdit.is(change)) {
    for (const indel of change.edits) { ... }
    if (selection) {
      const current = await workspace.document;
      if (current.uri !== change.textDocument.uri) {
        await workspace.loadFile(change.textDocument.uri);
        await workspace.jumpTo(change.textDocument.uri);
        // FIXME
        return;
      }
      await workspace.selectRange(selection);
    }
  }
  \<close>
\<close>

definition after_loop :: "TextDocumentEdit \<Rightarrow> string \<Rightarrow> LoopState \<Rightarrow> StoreCall list" where
  "after_loop change active st =
     (case selection st of
        Some sel \<Rightarrow>
          (if active \<noteq> uri (textDocument change)
           then calls st @ [LoadFile (uri (textDocument change)), JumpTo (uri (textDocument change))]
           else calls st @ [SelectRange sel])
      | None \<Rightarrow> calls st)"

definition applySnippetWorkspaceEdit :: "WorkspaceEdit \<Rightarrow> string \<Rightarrow> StoreCall list" where
  "applySnippetWorkspaceEdit edit active =
     (case documentChanges edit of
        None \<Rightarrow> []
      | Some [] \<Rightarrow> []
      | Some (TextDocumentChange change # _) \<Rightarrow> after_loop change active (run_loop change)
      | Some (_ # _) \<Rightarrow> [])"

text \<open>
  The document change that the iteration for \<open>indel\<close> hands to \<open>workspace.applyEdit\<close>:
  \<open>newChange\<close> in the first branch of \<open>step\<close>, \<open>change\<close> itself in the second.
\<close>

definition applied_change :: "TextDocumentEdit \<Rightarrow> TextEdit \<Rightarrow> TextDocumentEdit" where
  "applied_change change indel =
     (case parseSnippet (newText indel) of
        None \<Rightarrow> change
      | Some (newText', _) \<Rightarrow>
          TextDocumentEdit_create (textDocument change) [TextEdit_replace (range indel) newText'])"

section \<open>Vocabulary of the statements\<close>

text \<open>
  The documents a store operation names: those of the document changes and of the
  \<open>changes\<close> map of an applied workspace edit, and the document loaded or jumped to.
  \<open>workspace.selectRange\<close> names no document (it acts on the active one).
\<close>

definition change_uris :: "DocumentChange \<Rightarrow> string list" where
  "change_uris ch =
     (case ch of
        TextDocumentChange t \<Rightarrow> [uri (textDocument t)]
      | CreateFile u \<Rightarrow> [u]
      | RenameFile old new \<Rightarrow> [old, new]
      | DeleteFile u \<Rightarrow> [u])"

definition touched :: "StoreCall \<Rightarrow> string list" where
  "touched call =
     (case call of
        ApplyEdit w \<Rightarrow>
          concat (map change_uris (case documentChanges w of None \<Rightarrow> [] | Some cs \<Rightarrow> cs))
            @ (case changes w of None \<Rightarrow> [] | Some m \<Rightarrow> map fst m)
      | LoadFile u \<Rightarrow> [u]
      | JumpTo u \<Rightarrow> [u]
      | SelectRange r \<Rightarrow> [])"

text \<open>
  Concrete inputs: an insertion of \<open>t\<close> at line \<open>l\<close>, column \<open>c\<close> (an empty range), and
  a workspace edit whose only document change is the group \<open>es\<close> on the document
  \<^verbatim>\<open>f.rs\<close>.
\<close>

definition doc_f :: TextDocumentIdentifier where
  "doc_f = \<lparr>uri = ''f.rs'', version = None\<rparr>"

definition insert_at :: "int \<Rightarrow> int \<Rightarrow> string \<Rightarrow> TextEdit" where
  "insert_at l c t = \<lparr>range = Range_create l c l c, newText = t\<rparr>"

definition group :: "TextEdit list \<Rightarrow> TextDocumentEdit" where
  "group es = \<lparr>textDocument = doc_f, edits = es\<rparr>"

definition grouped_edit :: "TextEdit list \<Rightarrow> WorkspaceEdit" where
  "grouped_edit es = \<lparr>changes = None, documentChanges = Some [TextDocumentChange (group es)]\<rparr>"

section \<open>The marker found by the parser\<close>

lemma match_here_Nil [simp]: "match_here [] = None"
  by (simp add: match_here_def)

lemma match_here_bare: "match_here (''$0'' @ rest) = Some (''$0'', None)"
  by (simp add: match_here_def)

lemma match_here_bounded:
  assumes "CHR ''}'' \<notin> set d"
  shows "match_here (''${0:'' @ d @ ''}'' @ rest) = Some (''${0:'' @ d @ ''}'', Some d)"
proof -
  have "takeWhile (\<lambda>c. c \<noteq> CHR ''}'') (d @ CHR ''}'' # rest) = d"
    using assms by (subst takeWhile_append2) auto
  then show ?thesis
    by (simp add: match_here_def)
qed

lemma match_here_SomeD:
  assumes "match_here s = Some (m0, m2)"
  shows "(m0 = ''$0'' \<and> m2 = None \<or>
          (\<exists>d. m0 = ''${0:'' @ d @ ''}'' \<and> m2 = Some d \<and> CHR ''}'' \<notin> set d))
         \<and> (\<exists>rest. s = m0 @ rest)"
proof (cases "take 2 s = ''$0''")
  case True
  then have "take 2 s @ drop 2 s = ''$0'' @ drop 2 s"
    by simp
  then have s: "s = ''$0'' @ drop 2 s"
    by (simp only: append_take_drop_id)
  from assms True have "m0 = ''$0''" "m2 = None"
    by (simp_all add: match_here_def)
  with s show ?thesis by blast
next
  case False
  define body where "body = drop 4 s"
  define d where "d = takeWhile (\<lambda>c. c \<noteq> CHR ''}'') body"
  from assms False have h4: "take 4 s = ''${0:''"
    by (simp add: match_here_def split: if_splits)
  from assms False h4 have lt: "length d < length body"
    by (simp add: match_here_def Let_def body_def d_def split: if_splits)
  from assms False h4 lt have m: "m0 = ''${0:'' @ d @ ''}''" "m2 = Some d"
    by (simp_all add: match_here_def Let_def body_def d_def)
  have nd: "CHR ''}'' \<notin> set d"
    unfolding d_def by (auto dest: set_takeWhileD)
  have "dropWhile (\<lambda>c. c \<noteq> CHR ''}'') body \<noteq> []"
  proof
    assume "dropWhile (\<lambda>c. c \<noteq> CHR ''}'') body = []"
    then have "takeWhile (\<lambda>c. c \<noteq> CHR ''}'') body = body"
      by (simp add: takeWhile_eq_all_conv)
    with lt show False by (simp add: d_def)
  qed
  then obtain x r where r: "dropWhile (\<lambda>c. c \<noteq> CHR ''}'') body = x # r"
    by (cases "dropWhile (\<lambda>c. c \<noteq> CHR ''}'') body") auto
  from hd_dropWhile [of "\<lambda>c. c \<noteq> CHR ''}''" body] r have x: "x = CHR ''}''"
    by simp
  have "d @ dropWhile (\<lambda>c. c \<noteq> CHR ''}'') body = body"
    unfolding d_def by (rule takeWhile_dropWhile_id)
  with r x have body: "body = d @ CHR ''}'' # r"
    by simp
  have "take 4 s @ drop 4 s = s"
    by (rule append_take_drop_id)
  with h4 body have "s = ''${0:'' @ (d @ CHR ''}'' # r)"
    by (simp add: body_def)
  with m have "s = m0 @ r"
    by simp
  with m nd show ?thesis by blast
qed

lemma match_here_prefix:
  assumes "match_here t = Some (m0, m2)" and "take (length m0) u = m0"
  shows "match_here u = Some (m0, m2)"
proof -
  have "take (length m0) u @ drop (length m0) u = u"
    by (rule append_take_drop_id)
  with assms(2) obtain r where u: "u = m0 @ r"
    by metis
  from match_here_SomeD [OF assms(1)]
  have "m0 = ''$0'' \<and> m2 = None \<or>
    (\<exists>d. m0 = ''${0:'' @ d @ ''}'' \<and> m2 = Some d \<and> CHR ''}'' \<notin> set d)"
    by (rule conjunct1)
  then show ?thesis
  proof (elim conjE disjE exE)
    assume "m0 = ''$0''" "m2 = None"
    then show ?thesis unfolding u using match_here_bare [of r] by simp
  next
    fix d assume "m0 = ''${0:'' @ d @ ''}''" "m2 = Some d" "CHR ''}'' \<notin> set d"
    then show ?thesis unfolding u using match_here_bounded [of d r] by simp
  qed
qed

lemma regex_match_SomeD:
  "regex_match s = Some (i, m0, m2) \<Longrightarrow>
     i < length s \<and> match_here (drop i s) = Some (m0, m2) \<and> (\<forall>j<i. match_here (drop j s) = None)"
proof (induction s arbitrary: i)
  case Nil
  then show ?case by simp
next
  case (Cons c cs)
  show ?case
  proof (cases "match_here (c # cs)")
    case None
    with Cons.prems obtain k where k: "regex_match cs = Some (k, m0, m2)" and i: "i = Suc k"
      by (auto split: option.splits)
    from Cons.IH [OF k] have ih: "k < length cs" "match_here (drop k cs) = Some (m0, m2)"
      "\<forall>j<k. match_here (drop j cs) = None" by auto
    have "match_here (drop j (c # cs)) = None" if "j < i" for j
      using that None ih(3) i by (cases j) auto
    with ih i show ?thesis by simp
  next
    case (Some p)
    with Cons.prems show ?thesis by (auto split: prod.splits)
  qed
qed

lemma regex_match_NoneD:
  "regex_match s = None \<Longrightarrow> match_here (drop j s) = None"
proof (induction s arbitrary: j)
  case Nil
  then show ?case by simp
next
  case (Cons c cs)
  then show ?case
    by (cases j) (auto split: option.splits prod.splits)
qed

lemma indexOf_regex_match:
  "regex_match s = Some (i, m0, m2) \<Longrightarrow> indexOf s m0 = Some i"
proof (induction s arbitrary: i)
  case Nil
  then show ?case by simp
next
  case (Cons c cs)
  show ?case
  proof (cases "match_here (c # cs)")
    case None
    with Cons.prems obtain k where k: "regex_match cs = Some (k, m0, m2)" and i: "i = Suc k"
      by (auto split: option.splits)
    from regex_match_SomeD [OF k] have "match_here (drop k cs) = Some (m0, m2)" by simp
    from match_here_prefix [OF this] None have "take (length m0) (c # cs) \<noteq> m0"
      by fastforce
    with Cons.IH [OF k] i show ?thesis by simp
  next
    case (Some p)
    with Cons.prems have i: "i = 0" and p: "p = (m0, m2)"
      by (auto split: prod.splits)
    from match_here_SomeD Some p obtain rest where "c # cs = m0 @ rest" by blast
    then have "take (length m0) (c # cs) = m0"
      by (metis append_eq_conv_conj)
    with i show ?thesis by simp
  qed
qed

lemma parseSnippet_regex_match:
  assumes "regex_match s = Some (i, m0, m2)"
  shows "parseSnippet s =
    Some (take i s @ getSubstitution m0 s i (case m2 of Some d \<Rightarrow> d | None \<Rightarrow> '''')
            @ drop (i + length m0) s,
          (i, length (case m2 of Some d \<Rightarrow> d | None \<Rightarrow> '''')))"
  using assms indexOf_regex_match [OF assms]
  by (simp add: parseSnippet_def js_replace_def Let_def)

lemma parseSnippet_None_iff: "parseSnippet s = None \<longleftrightarrow> regex_match s = None"
  by (auto simp: parseSnippet_def Let_def split: option.splits)

lemma getSubstitution_plain:
  "CHR ''$'' \<notin> set t \<Longrightarrow> getSubstitution m s p t = t"
  by (induction m s p t rule: getSubstitution.induct) auto

lemma regex_match_found:
  "match_here (drop j s) \<noteq> None \<Longrightarrow> regex_match s \<noteq> None"
  using regex_match_NoneD [of s j] by (cases "regex_match s") auto

lemma parseSnippet_marker_found:
  assumes "s = pre @ ''$0'' @ post \<or> (s = pre @ ''${0:'' @ d @ ''}'' @ post \<and> CHR ''}'' \<notin> set d)"
  shows "parseSnippet s \<noteq> None"
proof -
  from assms have "match_here (drop (length pre) s) \<noteq> None"
    using match_here_bare [of post] match_here_bounded [of d post] by auto
  then show ?thesis
    by (simp add: parseSnippet_None_iff regex_match_found)
qed

lemma parseSnippet_plain_default:
  assumes "regex_match s = Some (i, m0, m2)"
    and "CHR ''$'' \<notin> set (case m2 of Some d \<Rightarrow> d | None \<Rightarrow> '''')"
  shows "parseSnippet s =
    Some (take i s @ (case m2 of Some d \<Rightarrow> d | None \<Rightarrow> '''') @ drop (i + length m0) s,
          (i, length (case m2 of Some d \<Rightarrow> d | None \<Rightarrow> '''')))"
  by (simp add: parseSnippet_regex_match [OF assms(1)] getSubstitution_plain [OF assms(2)])

section \<open>The loop over the edits of a group\<close>

lemma selection_step_plain:
  "parseSnippet (newText e) = None \<Longrightarrow> selection (step c st e) = selection st"
  by (simp add: step_def)

lemma selection_step_marker:
  "parseSnippet (newText e) \<noteq> None \<Longrightarrow> selection (step c st e) \<noteq> None"
  by (auto simp: step_def Let_def split: option.splits)

lemma lineDelta_step_marker:
  "parseSnippet (newText e) \<noteq> None \<Longrightarrow> lineDelta (step c st e) = lineDelta st"
  by (auto simp: step_def Let_def split: option.splits)

lemma lineDelta_step_plain:
  "parseSnippet (newText e) = None \<Longrightarrow>
     lineDelta (step c st e) =
       int (countLines (newText e)) - (line (end' (range e)) - line (start (range e)))"
  by (simp add: step_def)

lemma calls_step:
  "calls (step c st e) =
     calls st @ [ApplyEdit \<lparr>changes = None,
       documentChanges = Some [TextDocumentChange (applied_change c e)]\<rparr>]"
  by (auto simp: step_def applied_change_def Let_def split: option.splits)

lemma calls_foldl_step:
  "calls (foldl (step c) st es) =
     calls st @ map (\<lambda>e. ApplyEdit \<lparr>changes = None,
       documentChanges = Some [TextDocumentChange (applied_change c e)]\<rparr>) es"
  by (induction es arbitrary: st) (simp_all add: calls_step)

lemma selection_foldl_plain:
  "\<forall>x\<in>set es. parseSnippet (newText x) = None \<Longrightarrow>
     selection (foldl (step c) st es) = selection st"
  by (induction es arbitrary: st) (simp_all add: selection_step_plain)

lemma selection_foldl_None:
  "selection (foldl (step c) st es) = None \<longleftrightarrow>
     selection st = None \<and> (\<forall>e\<in>set es. parseSnippet (newText e) = None)"
proof (induction es arbitrary: st)
  case Nil
  then show ?case by simp
next
  case (Cons e es)
  show ?case
  proof (cases "parseSnippet (newText e)")
    case None
    then show ?thesis
      by (simp add: Cons.IH selection_step_plain)
  next
    case (Some p)
    then have "selection (step c st e) \<noteq> None"
      by (simp add: selection_step_marker)
    with Some show ?thesis
      by (simp add: Cons.IH)
  qed
qed

lemma selection_run_loop:
  "selection (run_loop c) = None \<longleftrightarrow> (\<forall>e\<in>set (edits c). parseSnippet (newText e) = None)"
  by (simp add: run_loop_def selection_foldl_None initial_def)

lemma calls_run_loop:
  "calls (run_loop c) =
     map (\<lambda>e. ApplyEdit \<lparr>changes = None,
       documentChanges = Some [TextDocumentChange (applied_change c e)]\<rparr>) (edits c)"
  by (simp add: run_loop_def calls_foldl_step initial_def)

lemma applySnippetWorkspaceEdit_first:
  "documentChanges W = Some (TextDocumentChange c # rest) \<Longrightarrow>
     applySnippetWorkspaceEdit W active = after_loop c active (run_loop c)"
  by (simp add: applySnippetWorkspaceEdit_def)

lemma lastIndexOf_absent: "c \<notin> set s \<Longrightarrow> lastIndexOf s c = - 1"
  by (simp add: lastIndexOf_def)

lemma lastIndexOf_last:
  assumes "c \<notin> set b"
  shows "lastIndexOf (a @ c # b) c = int (length a)"
proof -
  have "takeWhile (\<lambda>x. x \<noteq> c) (rev b @ c # rev a) = rev b"
    using assms by (subst takeWhile_append2) auto
  then show ?thesis
    by (simp add: lastIndexOf_def)
qed

lemma lastIndexOf_present: "c \<in> set s \<Longrightarrow> 0 \<le> lastIndexOf s c"
proof -
  assume "c \<in> set s"
  then obtain a b where "s = a @ c # b" and "c \<notin> set b"
    by (meson split_list_last)
  then show ?thesis
    by (simp add: lastIndexOf_last)
qed

lemma lastIndexOf_minus_one: "lastIndexOf s c = - 1 \<longleftrightarrow> c \<notin> set s"
  using lastIndexOf_present [of c s] lastIndexOf_absent [of c s] by fastforce

lemma step_regex_match:
  assumes "regex_match (newText indel) = Some (i, m0, m2)"
  shows "step change st indel =
     st\<lparr>selection := Some (Range_create
            (line (start (range indel)) + lineDelta st + int (countLines (take i (newText indel))))
            (if newline \<in> set (take i (newText indel))
             then int i - lastIndexOf (take i (newText indel)) newline - 1
             else character (start (range indel)) + int i)
            (line (start (range indel)) + lineDelta st + int (countLines (take i (newText indel))))
            ((if newline \<in> set (take i (newText indel))
              then int i - lastIndexOf (take i (newText indel)) newline - 1
              else character (start (range indel)) + int i)
             + int (length (case m2 of Some d \<Rightarrow> d | None \<Rightarrow> '''')))),
         calls := calls st @
           [ApplyEdit \<lparr>changes = None, documentChanges = Some [TextDocumentChange
              (TextDocumentEdit_create (textDocument change)
                 [TextEdit_replace (range indel)
                    (take i (newText indel)
                       @ getSubstitution m0 (newText indel) i (case m2 of Some d \<Rightarrow> d | None \<Rightarrow> '''')
                       @ drop (i + length m0) (newText indel))])]\<rparr>]\<rparr>"
proof -
  from regex_match_SomeD [OF assms] have i: "i < length (newText indel)"
    by simp
  then have len: "length (take i (newText indel)) = i"
    by simp
  show ?thesis
    unfolding step_def parseSnippet_regex_match [OF assms]
    by (simp add: Let_def len lastIndexOf_minus_one i less_imp_le min_absorb2)
qed

lemma textDocument_applied_change: "textDocument (applied_change c e) = textDocument c"
  by (simp add: applied_change_def TextDocumentEdit_create_def split: option.splits prod.splits)

lemma applied_change_plain:
  "parseSnippet (newText e) = None \<Longrightarrow> applied_change c e = c"
  by (simp add: applied_change_def)

lemma plain_group_calls:
  assumes "\<forall>e\<in>set (edits c). parseSnippet (newText e) = None"
    and "documentChanges W = Some (TextDocumentChange c # rest)"
  shows "applySnippetWorkspaceEdit W active =
           replicate (length (edits c))
             (ApplyEdit \<lparr>changes = None, documentChanges = Some [TextDocumentChange c]\<rparr>)"
proof -
  from assms(1) have "selection (run_loop c) = None"
    by (simp add: selection_run_loop)
  then have "applySnippetWorkspaceEdit W active = calls (run_loop c)"
    by (simp add: applySnippetWorkspaceEdit_first [OF assms(2)] after_loop_def)
  also have "\<dots> = map (\<lambda>e. ApplyEdit \<lparr>changes = None,
       documentChanges = Some [TextDocumentChange c]\<rparr>) (edits c)"
    unfolding calls_run_loop using assms(1) by (simp add: applied_change_plain)
  finally show ?thesis
    by (simp add: map_replicate_const)
qed

lemma lineDelta_foldl_last_plain:
  "parseSnippet (newText e) = None \<Longrightarrow>
     lineDelta (foldl (step c) st (pre @ [e])) =
       int (countLines (newText e)) - (line (end' (range e)) - line (start (range e)))"
  by (simp add: lineDelta_step_plain)

lemma selection_line:
  assumes "regex_match (newText indel) = Some (i, m0, m2)"
  shows "\<exists>sel. selection (step change st indel) = Some sel
           \<and> line (start sel) =
               line (start (range indel)) + lineDelta st + int (countLines (take i (newText indel)))"
  unfolding step_regex_match [OF assms] by (simp add: Range_create_def)

lemma lineDelta_foldl_markers:
  "\<forall>x\<in>set es. parseSnippet (newText x) \<noteq> None \<Longrightarrow>
     lineDelta (foldl (step c) st es) = lineDelta st"
  by (induction es arbitrary: st) (simp_all add: lineDelta_step_marker)

lemma lineDelta_foldl_latest_plain:
  assumes "parseSnippet (newText p) = None"
    and "\<forall>x\<in>set p2. parseSnippet (newText x) \<noteq> None"
  shows "lineDelta (foldl (step c) st (p1 @ p # p2)) =
           int (countLines (newText p)) - (line (end' (range p)) - line (start (range p)))"
  using assms by (simp add: lineDelta_foldl_markers lineDelta_step_plain)

section \<open>Edits that are not a grouped text-document edit\<close>

text \<open>
  C8. A workspace edit whose \<open>documentChanges\<close> list is absent or empty, or whose first
  document change is not a text-document edit, makes \<open>applySnippetWorkspaceEdit\<close> await
  no store operation at all: no edit is applied, no selection is placed, and the call
  returns normally.
\<close>

theorem C8_unrecognized_shape_noop:
  assumes "documentChanges W = None \<or> documentChanges W = Some []
     \<or> (\<exists>c rest. documentChanges W = Some (c # rest) \<and> (\<forall>t. c \<noteq> TextDocumentChange t))"
  shows "applySnippetWorkspaceEdit W active = []"
  using assms
  by (auto simp: applySnippetWorkspaceEdit_def split: option.splits list.splits DocumentChange.splits)


theorem C8_unrecognized_shape_noop_witness:
  "applySnippetWorkspaceEdit \<lparr>changes = None, documentChanges = Some [CreateFile ''a.rs'']\<rparr> ''b.rs'' = []"
proof -
  have h: "documentChanges \<lparr>changes = None, documentChanges = Some [CreateFile ''a.rs'']\<rparr> = None
     \<or> documentChanges \<lparr>changes = None, documentChanges = Some [CreateFile ''a.rs'']\<rparr> = Some []
     \<or> (\<exists>c rest. documentChanges \<lparr>changes = None, documentChanges = Some [CreateFile ''a.rs'']\<rparr>
            = Some (c # rest) \<and> (\<forall>t. c \<noteq> TextDocumentChange t))"
    by simp
  from C8_unrecognized_shape_noop [OF h] show ?thesis .
qed

section \<open>The selection of a marker-bearing edit\<close>

text \<open>
  C6. Let the marker found in the replacement text of an edit start at offset \<open>i\<close>, with
  default text \<open>m[2]\<close> (empty for the bare marker). The selection the iteration records
  lies on one line. Its start column is the edit's start column plus \<open>i\<close> when the text
  before the marker has no line break (the marker is on the first line of the inserted
  text), and the number of characters between the last line break before the marker
  and the marker otherwise. Its end column is the start column plus the length of the
  default text. In particular, a group with the single edit \<^verbatim>\<open>${0:foo}\<close> inserted at line
  2, column 4 of the active document applies the text \<^verbatim>\<open>foo\<close> there and selects columns
  4 to 7 of line 2.
\<close>

theorem C6_selection_columns:
  assumes "regex_match (newText indel) = Some (i, m0, m2)"
  shows "(\<exists>sel. selection (step change st indel) = Some sel
           \<and> line (end' sel) = line (start sel)
           \<and> (newline \<notin> set (take i (newText indel)) \<longrightarrow>
                character (start sel) = character (start (range indel)) + int i)
           \<and> (\<forall>a b. take i (newText indel) = a @ newline # b \<and> newline \<notin> set b \<longrightarrow>
                character (start sel) = int (length b))
           \<and> character (end' sel) =
                character (start sel) + int (length (case m2 of Some d \<Rightarrow> d | None \<Rightarrow> '''')))
         \<and> applySnippetWorkspaceEdit (grouped_edit [insert_at 2 4 ''${0:foo}'']) ''f.rs'' =
             [ApplyEdit (grouped_edit [insert_at 2 4 ''foo'']),
              SelectRange (Range_create 2 4 2 7)]"
proof -
  let ?p = "take i (newText indel)"
  have later: "int i - lastIndexOf ?p newline - 1 = int (length b)"
    if "?p = a @ newline # b" "newline \<notin> set b" for a b
  proof -
    from regex_match_SomeD [OF assms] have "length ?p = i"
      by simp
    with that(1) have "i = length a + 1 + length b"
      by simp
    moreover have "lastIndexOf ?p newline = int (length a)"
      unfolding that(1) using that(2) by (rule lastIndexOf_last)
    ultimately show ?thesis
      by simp
  qed
  have general: "\<exists>sel. selection (step change st indel) = Some sel
           \<and> line (end' sel) = line (start sel)
           \<and> (newline \<notin> set ?p \<longrightarrow>
                character (start sel) = character (start (range indel)) + int i)
           \<and> (\<forall>a b. ?p = a @ newline # b \<and> newline \<notin> set b \<longrightarrow>
                character (start sel) = int (length b))
           \<and> character (end' sel) =
                character (start sel) + int (length (case m2 of Some d \<Rightarrow> d | None \<Rightarrow> ''''))"
    unfolding step_regex_match [OF assms]
    using later by (auto simp: Range_create_def)
  have example: "applySnippetWorkspaceEdit (grouped_edit [insert_at 2 4 ''${0:foo}'']) ''f.rs'' =
             [ApplyEdit (grouped_edit [insert_at 2 4 ''foo'']),
              SelectRange (Range_create 2 4 2 7)]"
    by code_simp
  from general example show ?thesis
    by (rule conjI)
qed

theorem C6_selection_columns_witness:
  "regex_match (newText (insert_at 1 3 (''ab'' @ [newline] @ ''cd$0''))) = Some (5, ''$0'', None)
   \<and> (\<exists>sel. selection (step (group []) initial (insert_at 1 3 (''ab'' @ [newline] @ ''cd$0'')))
                 = Some sel
          \<and> character (start sel) = 2 \<and> character (end' sel) = 2)"
proof -
  let ?e = "insert_at 1 3 (''ab'' @ [newline] @ ''cd$0'')"
  have h: "regex_match (newText ?e) = Some (5, ''$0'', None)"
    by code_simp
  have p: "take 5 (newText ?e) = ''ab'' @ newline # ''cd''"
    by (simp add: insert_at_def)
  have n: "newline \<notin> set ''cd''"
    by (simp add: newline_def)
  from C6_selection_columns [OF h, of "group []" initial, THEN conjunct1]
  obtain sel where all: "selection (step (group []) initial ?e) = Some sel
           \<and> line (end' sel) = line (start sel)
           \<and> (newline \<notin> set (take 5 (newText ?e)) \<longrightarrow>
                character (start sel) = character (start (range ?e)) + int 5)
           \<and> (\<forall>a b. take 5 (newText ?e) = a @ newline # b \<and> newline \<notin> set b \<longrightarrow>
                character (start sel) = int (length b))
           \<and> character (end' sel) =
                character (start sel) + int (length (case None of Some d \<Rightarrow> d | None \<Rightarrow> ([]::string)))"
    ..
  then have sel: "selection (step (group []) initial ?e) = Some sel"
    and later: "\<forall>a b. take 5 (newText ?e) = a @ newline # b \<and> newline \<notin> set b \<longrightarrow>
                character (start sel) = int (length b)"
    and width: "character (end' sel) =
                character (start sel) + int (length (case None of Some d \<Rightarrow> d | None \<Rightarrow> ([]::string)))"
    by simp_all
  from later p n have "character (start sel) = int (length ''cd'')"
    by blast
  with width sel h show ?thesis
    by simp
qed

text \<open>
  C7, as stated, fails: the text \<^verbatim>\<open>${0:ab}$0\<close> contains the bare marker, but the marker
  found is the bounded one before it, and the selection is two columns wide.
\<close>

theorem C7_width_counterexample:
  "newText (insert_at 0 0 ''${0:ab}$0'') = ''${0:ab}'' @ ''$0'' @ ''''
   \<and> selection (step (group []) initial (insert_at 0 0 ''${0:ab}$0'')) = Some (Range_create 0 0 0 2)
   \<and> start (Range_create 0 0 0 2) \<noteq> end' (Range_create 0 0 0 2)"
  by code_simp

text \<open>
  C7, amended. For every edit whose first placeholder marker (the one \<open>parseSnippet\<close>
  finds) is the bare \<^verbatim>\<open>$0\<close>, with \<open>pre\<close> the text before it and \<open>post\<close> the text after
  it: the selection recorded has zero width, and the edit applied in isolation replaces
  the edit's range by \<open>pre @ post\<close>, the replacement text without that marker.
\<close>

theorem C7_bare_marker:
  assumes "newText indel = pre @ ''$0'' @ post"
    and "regex_match (newText indel) = Some (length pre, ''$0'', None)"
  shows "\<exists>sel. selection (step change st indel) = Some sel
           \<and> start sel = end' sel
           \<and> calls (step change st indel) = calls st @
                [ApplyEdit \<lparr>changes = None, documentChanges = Some [TextDocumentChange
                   (TextDocumentEdit_create (textDocument change)
                      [TextEdit_replace (range indel) (pre @ post)])]\<rparr>]"
proof -
  have "take (length pre) (newText indel) = pre"
    and "drop (length pre + length ''$0'') (newText indel) = post"
    unfolding assms(1) by simp_all
  then show ?thesis
    unfolding step_regex_match [OF assms(2)]
    by (simp add: Range_create_def)
qed

theorem C7_bare_marker_witness:
  "newText (insert_at 3 1 ''ab$0cd'') = ''ab'' @ ''$0'' @ ''cd''
   \<and> regex_match (newText (insert_at 3 1 ''ab$0cd'')) = Some (length ''ab'', ''$0'', None)
   \<and> (\<exists>sel. selection (step (group []) initial (insert_at 3 1 ''ab$0cd'')) = Some sel
          \<and> start sel = end' sel
          \<and> calls (step (group []) initial (insert_at 3 1 ''ab$0cd'')) = calls initial @
                [ApplyEdit \<lparr>changes = None, documentChanges = Some [TextDocumentChange
                   (TextDocumentEdit_create (textDocument (group []))
                      [TextEdit_replace (range (insert_at 3 1 ''ab$0cd'')) (''ab'' @ ''cd'')])]\<rparr>])"
proof -
  have h1: "newText (insert_at 3 1 ''ab$0cd'') = ''ab'' @ ''$0'' @ ''cd''"
    by (simp add: insert_at_def)
  have h2: "regex_match (newText (insert_at 3 1 ''ab$0cd'')) = Some (length ''ab'', ''$0'', None)"
    by code_simp
  from h1 h2 C7_bare_marker [OF h1 h2, of "group []" initial] show ?thesis
    by blast
qed

section \<open>Document changes after the first\<close>

text \<open>
  C10. When \<open>documentChanges\<close> has a first element \<open>c\<close> and further elements \<open>rest\<close>, the
  store operations of \<open>applySnippetWorkspaceEdit\<close> (the edits applied and the selection
  placed, which carries the line drift) are those of the workspace edit with \<open>c\<close> alone,
  and every operation names only the document of \<open>c\<close>: a document that only \<open>rest\<close>
  refers to is never edited.
\<close>

theorem C10_only_first_change:
  assumes "documentChanges W = Some (c # rest)"
  shows "applySnippetWorkspaceEdit W active =
           applySnippetWorkspaceEdit (W\<lparr>documentChanges := Some [c]\<rparr>) active
         \<and> (\<forall>call\<in>set (applySnippetWorkspaceEdit W active).
               set (touched call) \<subseteq> set (change_uris c))"
proof (cases c)
  case (TextDocumentChange t)
  have first: "applySnippetWorkspaceEdit W active = after_loop t active (run_loop t)"
    using assms TextDocumentChange by (simp add: applySnippetWorkspaceEdit_def)
  have same: "applySnippetWorkspaceEdit (W\<lparr>documentChanges := Some [c]\<rparr>) active
                = after_loop t active (run_loop t)"
    using TextDocumentChange by (simp add: applySnippetWorkspaceEdit_def)
  have "set (touched call) \<subseteq> {uri (textDocument t)}"
    if "call \<in> set (after_loop t active (run_loop t))" for call
    using that
    by (auto simp: after_loop_def calls_run_loop touched_def change_uris_def
        textDocument_applied_change split: option.splits if_splits)
  with first same TextDocumentChange show ?thesis
    by (simp add: change_uris_def)
next
  case (CreateFile u)
  with assms show ?thesis by (simp add: applySnippetWorkspaceEdit_def)
next
  case (RenameFile a b)
  with assms show ?thesis by (simp add: applySnippetWorkspaceEdit_def)
next
  case (DeleteFile u)
  with assms show ?thesis by (simp add: applySnippetWorkspaceEdit_def)
qed

theorem C10_only_first_change_witness:
  "documentChanges \<lparr>changes = None, documentChanges =
       Some [TextDocumentChange (group [insert_at 0 0 ''$0'']),
             TextDocumentChange \<lparr>textDocument = \<lparr>uri = ''g.rs'', version = None\<rparr>,
                                 edits = [insert_at 7 0 ''${0:x}'']\<rparr>]\<rparr>
     = Some (TextDocumentChange (group [insert_at 0 0 ''$0''])
         # [TextDocumentChange \<lparr>textDocument = \<lparr>uri = ''g.rs'', version = None\<rparr>,
                                 edits = [insert_at 7 0 ''${0:x}'']\<rparr>])
   \<and> applySnippetWorkspaceEdit \<lparr>changes = None, documentChanges =
       Some [TextDocumentChange (group [insert_at 0 0 ''$0'']),
             TextDocumentChange \<lparr>textDocument = \<lparr>uri = ''g.rs'', version = None\<rparr>,
                                 edits = [insert_at 7 0 ''${0:x}'']\<rparr>]\<rparr> ''f.rs''
     = [ApplyEdit (grouped_edit [insert_at 0 0 '''']), SelectRange (Range_create 0 0 0 0)]"
proof -
  let ?W = "\<lparr>changes = None, documentChanges =
       Some [TextDocumentChange (group [insert_at 0 0 ''$0'']),
             TextDocumentChange \<lparr>textDocument = \<lparr>uri = ''g.rs'', version = None\<rparr>,
                                 edits = [insert_at 7 0 ''${0:x}'']\<rparr>]\<rparr>"
  have h: "documentChanges ?W = Some (TextDocumentChange (group [insert_at 0 0 ''$0''])
         # [TextDocumentChange \<lparr>textDocument = \<lparr>uri = ''g.rs'', version = None\<rparr>,
                                 edits = [insert_at 7 0 ''${0:x}'']\<rparr>])"
    by simp
  have one: "applySnippetWorkspaceEdit
        (?W\<lparr>documentChanges := Some [TextDocumentChange (group [insert_at 0 0 ''$0''])]\<rparr>) ''f.rs''
     = [ApplyEdit (grouped_edit [insert_at 0 0 '''']), SelectRange (Range_create 0 0 0 0)]"
    by code_simp
  from C10_only_first_change [OF h, of "''f.rs''"] one h show ?thesis
    by simp
qed

section \<open>Groups without a marker\<close>

text \<open>
  C1. The claim asks that a group without a marker is applied edit by edit, each edit
  once. The loop hands the whole group to \<open>workspace.applyEdit\<close> in every iteration
  (\<open>plain_group_calls\<close>): for the group of the two insertions \<^verbatim>\<open>a\<close> at line 0 and \<^verbatim>\<open>b\<close>
  at line 1, the store receives the two-edit group twice, which is not the sequence of
  the two single-edit applications. No selection is placed.
\<close>

theorem C1_group_applied_per_edit:
  "applySnippetWorkspaceEdit (grouped_edit [insert_at 0 0 ''a'', insert_at 1 0 ''b'']) ''f.rs'' =
     [ApplyEdit (grouped_edit [insert_at 0 0 ''a'', insert_at 1 0 ''b'']),
      ApplyEdit (grouped_edit [insert_at 0 0 ''a'', insert_at 1 0 ''b''])]
   \<and> applySnippetWorkspaceEdit (grouped_edit [insert_at 0 0 ''a'', insert_at 1 0 ''b'']) ''f.rs'' \<noteq>
     [ApplyEdit (grouped_edit [insert_at 0 0 ''a'']),
      ApplyEdit (grouped_edit [insert_at 1 0 ''b''])]"
  by code_simp

section \<open>Groups with more than one marker-bearing edit\<close>

text \<open>
  C2, as stated, fails: with the edits \<^verbatim>\<open>${0:x}\<close> at line 1 and \<^verbatim>\<open>${0:yy}\<close> at line 5,
  the selection placed is the one of the second edit (line 5, columns 0 to 2), not the
  one the first edit gave (line 1, columns 0 to 1).
\<close>

theorem C2_first_marker_counterexample:
  "applySnippetWorkspaceEdit
       (grouped_edit [insert_at 1 0 ''${0:x}'', insert_at 5 0 ''${0:yy}'']) ''f.rs'' =
     [ApplyEdit (grouped_edit [insert_at 1 0 ''x'']),
      ApplyEdit (grouped_edit [insert_at 5 0 ''yy'']),
      SelectRange (Range_create 5 0 5 2)]
   \<and> selection (step (group [insert_at 1 0 ''${0:x}'', insert_at 5 0 ''${0:yy}'']) initial
        (insert_at 1 0 ''${0:x}'')) = Some (Range_create 1 0 1 1)
   \<and> Range_create 5 0 5 2 \<noteq> Range_create 1 0 1 1"
  by code_simp

text \<open>
  C2, amended. The selection finally applied is the one derived from the last
  marker-bearing edit of the group. When the marker of \<open>e\<close> is found at offset \<open>i\<close> with
  default text \<open>m[2]\<close> and no edit after \<open>e\<close> bears a marker, and the edited document is
  the active one, the store receives one \<open>workspace.applyEdit\<close> per edit of the group, in
  order (a marker-bearing edit alone, with the parser's text), and then one
  \<open>workspace.selectRange\<close> whose range is computed from \<open>e\<close>: its line is the start
  line of \<open>e\<close> plus \<open>lineDelta\<close> plus the line breaks before the marker, its columns are
  those of the marker and of the end of the default text in \<open>e\<close>. Here \<open>lineDelta\<close> is
  the value the loop holds when it reaches \<open>e\<close>: \<open>0\<close> when every edit before \<open>e\<close> bears a
  marker, and otherwise the line change of the latest edit without one.
\<close>

theorem C2_last_marker_wins:
  assumes "edits c = pre @ e # post"
    and "regex_match (newText e) = Some (i, m0, m2)"
    and "\<forall>x\<in>set post. parseSnippet (newText x) = None"
    and "documentChanges W = Some (TextDocumentChange c # rest)"
  shows "applySnippetWorkspaceEdit W (uri (textDocument c)) =
           map (\<lambda>x. ApplyEdit \<lparr>changes = None,
                  documentChanges = Some [TextDocumentChange (applied_change c x)]\<rparr>) (edits c)
           @ [SelectRange (Range_create
               (line (start (range e)) + lineDelta (foldl (step c) initial pre)
                  + int (countLines (take i (newText e))))
               (if newline \<in> set (take i (newText e))
                then int i - lastIndexOf (take i (newText e)) newline - 1
                else character (start (range e)) + int i)
               (line (start (range e)) + lineDelta (foldl (step c) initial pre)
                  + int (countLines (take i (newText e))))
               ((if newline \<in> set (take i (newText e))
                 then int i - lastIndexOf (take i (newText e)) newline - 1
                 else character (start (range e)) + int i)
                + int (length (case m2 of Some d \<Rightarrow> d | None \<Rightarrow> ''''))))]
         \<and> ((\<forall>x\<in>set pre. parseSnippet (newText x) \<noteq> None) \<longrightarrow>
               lineDelta (foldl (step c) initial pre) = 0)
         \<and> (\<forall>p1 p p2. pre = p1 @ p # p2 \<and> parseSnippet (newText p) = None
               \<and> (\<forall>x\<in>set p2. parseSnippet (newText x) \<noteq> None) \<longrightarrow>
               lineDelta (foldl (step c) initial pre) =
                 int (countLines (newText p)) - (line (end' (range p)) - line (start (range p))))"
proof -
  let ?st = "foldl (step c) initial pre"
  let ?sel = "Range_create
               (line (start (range e)) + lineDelta ?st + int (countLines (take i (newText e))))
               (if newline \<in> set (take i (newText e))
                then int i - lastIndexOf (take i (newText e)) newline - 1
                else character (start (range e)) + int i)
               (line (start (range e)) + lineDelta ?st + int (countLines (take i (newText e))))
               ((if newline \<in> set (take i (newText e))
                 then int i - lastIndexOf (take i (newText e)) newline - 1
                 else character (start (range e)) + int i)
                + int (length (case m2 of Some d \<Rightarrow> d | None \<Rightarrow> '''')))"
  have "selection (step c ?st e) = Some ?sel"
    unfolding step_regex_match [OF assms(2)] by simp
  moreover have "selection (run_loop c) = selection (foldl (step c) (step c ?st e) post)"
    by (simp add: run_loop_def assms(1))
  ultimately have "selection (run_loop c) = Some ?sel"
    using selection_foldl_plain [OF assms(3)] by simp
  then have trace: "applySnippetWorkspaceEdit W (uri (textDocument c)) =
      map (\<lambda>x. ApplyEdit \<lparr>changes = None,
             documentChanges = Some [TextDocumentChange (applied_change c x)]\<rparr>) (edits c)
      @ [SelectRange ?sel]"
    by (simp add: applySnippetWorkspaceEdit_first [OF assms(4)] after_loop_def calls_run_loop)
  have none: "(\<forall>x\<in>set pre. parseSnippet (newText x) \<noteq> None) \<longrightarrow> lineDelta ?st = 0"
    by (simp add: lineDelta_foldl_markers initial_def)
  have latest: "\<forall>p1 p p2. pre = p1 @ p # p2 \<and> parseSnippet (newText p) = None
               \<and> (\<forall>x\<in>set p2. parseSnippet (newText x) \<noteq> None) \<longrightarrow>
               lineDelta ?st =
                 int (countLines (newText p)) - (line (end' (range p)) - line (start (range p)))"
    using lineDelta_foldl_latest_plain by blast
  from trace none latest show ?thesis
    by (intro conjI)
qed

theorem C2_last_marker_wins_witness:
  "edits (group [insert_at 1 0 ''${0:x}'', insert_at 5 0 ''${0:yy}'', insert_at 9 0 ''z''])
     = [insert_at 1 0 ''${0:x}''] @ insert_at 5 0 ''${0:yy}'' # [insert_at 9 0 ''z'']
   \<and> regex_match (newText (insert_at 5 0 ''${0:yy}'')) = Some (0, ''${0:yy}'', Some ''yy'')
   \<and> parseSnippet (newText (insert_at 9 0 ''z'')) = None
   \<and> applySnippetWorkspaceEdit
        (grouped_edit [insert_at 1 0 ''${0:x}'', insert_at 5 0 ''${0:yy}'', insert_at 9 0 ''z''])
        ''f.rs''
      = [ApplyEdit (grouped_edit [insert_at 1 0 ''x'']),
         ApplyEdit (grouped_edit [insert_at 5 0 ''yy'']),
         ApplyEdit (grouped_edit [insert_at 1 0 ''${0:x}'', insert_at 5 0 ''${0:yy}'', insert_at 9 0 ''z'']),
         SelectRange (Range_create 5 0 5 2)]"
proof -
  let ?es = "[insert_at 1 0 ''${0:x}'', insert_at 5 0 ''${0:yy}'', insert_at 9 0 ''z'']"
  let ?c = "group ?es"
  have h1: "edits ?c = [insert_at 1 0 ''${0:x}''] @ insert_at 5 0 ''${0:yy}'' # [insert_at 9 0 ''z'']"
    by (simp add: group_def)
  have h2: "regex_match (newText (insert_at 5 0 ''${0:yy}'')) = Some (0, ''${0:yy}'', Some ''yy'')"
    by code_simp
  have p: "parseSnippet (newText (insert_at 9 0 ''z'')) = None"
    by code_simp
  then have h3: "\<forall>x\<in>set [insert_at 9 0 ''z'']. parseSnippet (newText x) = None"
    by simp
  have h4: "documentChanges (grouped_edit ?es) = Some (TextDocumentChange ?c # [])"
    by (simp add: grouped_edit_def)
  have u: "uri (textDocument ?c) = ''f.rs''"
    by (simp add: group_def doc_f_def)
  have rhs: "map (\<lambda>x. ApplyEdit \<lparr>changes = None,
                  documentChanges = Some [TextDocumentChange (applied_change ?c x)]\<rparr>) (edits ?c)
           @ [SelectRange (Range_create
               (line (start (range (insert_at 5 0 ''${0:yy}'')))
                  + lineDelta (foldl (step ?c) initial [insert_at 1 0 ''${0:x}''])
                  + int (countLines (take 0 (newText (insert_at 5 0 ''${0:yy}'')))))
               (if newline \<in> set (take 0 (newText (insert_at 5 0 ''${0:yy}'')))
                then int 0 - lastIndexOf (take 0 (newText (insert_at 5 0 ''${0:yy}''))) newline - 1
                else character (start (range (insert_at 5 0 ''${0:yy}''))) + int 0)
               (line (start (range (insert_at 5 0 ''${0:yy}'')))
                  + lineDelta (foldl (step ?c) initial [insert_at 1 0 ''${0:x}''])
                  + int (countLines (take 0 (newText (insert_at 5 0 ''${0:yy}'')))))
               ((if newline \<in> set (take 0 (newText (insert_at 5 0 ''${0:yy}'')))
                 then int 0 - lastIndexOf (take 0 (newText (insert_at 5 0 ''${0:yy}''))) newline - 1
                 else character (start (range (insert_at 5 0 ''${0:yy}''))) + int 0)
                + int (length (case Some ''yy'' of Some d \<Rightarrow> d | None \<Rightarrow> ''''))))]
      = [ApplyEdit (grouped_edit [insert_at 1 0 ''x'']),
         ApplyEdit (grouped_edit [insert_at 5 0 ''yy'']),
         ApplyEdit (grouped_edit ?es),
         SelectRange (Range_create 5 0 5 2)]"
    by code_simp
  from C2_last_marker_wins [OF h1 h2 h3 h4, THEN conjunct1]
  have "applySnippetWorkspaceEdit (grouped_edit ?es) ''f.rs''
      = [ApplyEdit (grouped_edit [insert_at 1 0 ''x'']),
         ApplyEdit (grouped_edit [insert_at 5 0 ''yy'']),
         ApplyEdit (grouped_edit ?es),
         SelectRange (Range_create 5 0 5 2)]"
    unfolding u rhs .
  with h1 h2 p show ?thesis
    by (intro conjI)
qed

section \<open>Line drift\<close>

text \<open>
  C3. The claim asks for the sum of the line changes of all earlier edits. The loop
  assigns \<open>lineDelta\<close> in each iteration without a marker, so only the latest such edit
  counts (\<open>lineDelta_foldl_last_plain\<close>, \<open>selection_line\<close>). With a first edit that adds
  two lines, a second that adds none and the marker \<^verbatim>\<open>$0\<close> inserted at line 5, the
  selection is placed on line 5, though the earlier edits add two lines in all.
\<close>

theorem C3_drift_overwritten:
  "applySnippetWorkspaceEdit
       (grouped_edit [insert_at 0 0 (''a'' @ [newline] @ ''b'' @ [newline]), insert_at 3 0 ''x'',
                      insert_at 5 0 ''$0'']) ''f.rs'' =
     [ApplyEdit (grouped_edit [insert_at 0 0 (''a'' @ [newline] @ ''b'' @ [newline]), insert_at 3 0 ''x'',
                      insert_at 5 0 ''$0'']),
      ApplyEdit (grouped_edit [insert_at 0 0 (''a'' @ [newline] @ ''b'' @ [newline]), insert_at 3 0 ''x'',
                      insert_at 5 0 ''$0'']),
      ApplyEdit (grouped_edit [insert_at 5 0 '''']),
      SelectRange (Range_create 5 0 5 0)]
   \<and> int (countLines (''a'' @ [newline] @ ''b'' @ [newline])) - (0 - 0)
       + (int (countLines ''x'') - (3 - 3)) = 2"
  by code_simp

section \<open>An edited document that is not the active one\<close>

text \<open>
  C4, as stated, fails: for a group without a marker on \<^verbatim>\<open>f.rs\<close> while \<^verbatim>\<open>other.rs\<close> is
  active, the edit is applied and neither \<open>workspace.loadFile\<close> nor \<open>workspace.jumpTo\<close>
  is called.
\<close>

theorem C4_no_switch_counterexample:
  "uri (textDocument (group [insert_at 1 0 ''abc''])) \<noteq> ''other.rs''
   \<and> applySnippetWorkspaceEdit (grouped_edit [insert_at 1 0 ''abc'']) ''other.rs'' =
       [ApplyEdit (grouped_edit [insert_at 1 0 ''abc''])]"
  by code_simp

text \<open>
  C4, amended. When the edited document is not the active one after the loop, the
  store receives one \<open>workspace.applyEdit\<close> per edit of the group, in order, followed by
  \<open>workspace.loadFile\<close> and \<open>workspace.jumpTo\<close> on the edited document if some edit of the
  group bears a marker, and by nothing if none does. So \<open>workspace.selectRange\<close> is
  never called, and without a marker neither \<open>workspace.loadFile\<close> nor
  \<open>workspace.jumpTo\<close> is.
\<close>

theorem C4_switch_only_with_selection:
  assumes "documentChanges W = Some (TextDocumentChange c # rest)"
    and "active \<noteq> uri (textDocument c)"
  shows "applySnippetWorkspaceEdit W active =
           map (\<lambda>e. ApplyEdit \<lparr>changes = None,
                  documentChanges = Some [TextDocumentChange (applied_change c e)]\<rparr>) (edits c)
           @ (if \<exists>e\<in>set (edits c). parseSnippet (newText e) \<noteq> None
              then [LoadFile (uri (textDocument c)), JumpTo (uri (textDocument c))] else [])
         \<and> (\<forall>r. SelectRange r \<notin> set (applySnippetWorkspaceEdit W active))
         \<and> ((\<forall>e\<in>set (edits c). parseSnippet (newText e) = None) \<longrightarrow>
              (\<forall>u. LoadFile u \<notin> set (applySnippetWorkspaceEdit W active)
                 \<and> JumpTo u \<notin> set (applySnippetWorkspaceEdit W active)))"
proof -
  have eq: "applySnippetWorkspaceEdit W active =
           map (\<lambda>e. ApplyEdit \<lparr>changes = None,
                  documentChanges = Some [TextDocumentChange (applied_change c e)]\<rparr>) (edits c)
           @ (if \<exists>e\<in>set (edits c). parseSnippet (newText e) \<noteq> None
              then [LoadFile (uri (textDocument c)), JumpTo (uri (textDocument c))] else [])"
  proof (cases "selection (run_loop c)")
    case None
    with selection_run_loop [of c] have "\<not> (\<exists>e\<in>set (edits c). parseSnippet (newText e) \<noteq> None)"
      by auto
    with None show ?thesis
      by (simp add: applySnippetWorkspaceEdit_first [OF assms(1)] after_loop_def calls_run_loop)
  next
    case (Some sel)
    with selection_run_loop [of c] have "\<exists>e\<in>set (edits c). parseSnippet (newText e) \<noteq> None"
      by auto
    with Some assms(2) show ?thesis
      by (simp add: applySnippetWorkspaceEdit_first [OF assms(1)] after_loop_def calls_run_loop)
  qed
  have nosel: "\<forall>r. SelectRange r \<notin> set (applySnippetWorkspaceEdit W active)"
    unfolding eq by auto
  have noswitch: "(\<forall>e\<in>set (edits c). parseSnippet (newText e) = None) \<longrightarrow>
              (\<forall>u. LoadFile u \<notin> set (applySnippetWorkspaceEdit W active)
                 \<and> JumpTo u \<notin> set (applySnippetWorkspaceEdit W active))"
    unfolding eq by auto
  from eq nosel noswitch show ?thesis
    by (intro conjI)
qed

theorem C4_switch_only_with_selection_witness:
  "documentChanges (grouped_edit [insert_at 1 0 ''${0:x}''])
     = Some (TextDocumentChange (group [insert_at 1 0 ''${0:x}'']) # [])
   \<and> documentChanges (grouped_edit [insert_at 1 0 ''abc''])
     = Some (TextDocumentChange (group [insert_at 1 0 ''abc'']) # [])
   \<and> ''other.rs'' \<noteq> uri (textDocument (group [insert_at 1 0 ''${0:x}'']))
   \<and> ''other.rs'' \<noteq> uri (textDocument (group [insert_at 1 0 ''abc'']))
   \<and> applySnippetWorkspaceEdit (grouped_edit [insert_at 1 0 ''${0:x}'']) ''other.rs'' =
       [ApplyEdit (grouped_edit [insert_at 1 0 ''x'']), LoadFile ''f.rs'', JumpTo ''f.rs'']
   \<and> applySnippetWorkspaceEdit (grouped_edit [insert_at 1 0 ''abc'']) ''other.rs'' =
       [ApplyEdit (grouped_edit [insert_at 1 0 ''abc''])]"
proof -
  let ?c = "group [insert_at 1 0 ''${0:x}'']"
  let ?d = "group [insert_at 1 0 ''abc'']"
  have h1: "documentChanges (grouped_edit [insert_at 1 0 ''${0:x}'']) = Some (TextDocumentChange ?c # [])"
    by (simp add: grouped_edit_def)
  have h2: "''other.rs'' \<noteq> uri (textDocument ?c)"
    by (simp add: group_def doc_f_def)
  have g1: "documentChanges (grouped_edit [insert_at 1 0 ''abc'']) = Some (TextDocumentChange ?d # [])"
    by (simp add: grouped_edit_def)
  have g2: "''other.rs'' \<noteq> uri (textDocument ?d)"
    by (simp add: group_def doc_f_def)
  have rc: "map (\<lambda>e. ApplyEdit \<lparr>changes = None,
                  documentChanges = Some [TextDocumentChange (applied_change ?c e)]\<rparr>) (edits ?c)
           @ (if \<exists>e\<in>set (edits ?c). parseSnippet (newText e) \<noteq> None
              then [LoadFile (uri (textDocument ?c)), JumpTo (uri (textDocument ?c))] else [])
       = [ApplyEdit (grouped_edit [insert_at 1 0 ''x'']), LoadFile ''f.rs'', JumpTo ''f.rs'']"
    by code_simp
  have rd: "map (\<lambda>e. ApplyEdit \<lparr>changes = None,
                  documentChanges = Some [TextDocumentChange (applied_change ?d e)]\<rparr>) (edits ?d)
           @ (if \<exists>e\<in>set (edits ?d). parseSnippet (newText e) \<noteq> None
              then [LoadFile (uri (textDocument ?d)), JumpTo (uri (textDocument ?d))] else [])
       = [ApplyEdit (grouped_edit [insert_at 1 0 ''abc''])]"
    by code_simp
  from C4_switch_only_with_selection [OF h1 h2, THEN conjunct1]
  have a: "applySnippetWorkspaceEdit (grouped_edit [insert_at 1 0 ''${0:x}'']) ''other.rs'' =
       [ApplyEdit (grouped_edit [insert_at 1 0 ''x'']), LoadFile ''f.rs'', JumpTo ''f.rs'']"
    unfolding rc .
  from C4_switch_only_with_selection [OF g1 g2, THEN conjunct1]
  have b: "applySnippetWorkspaceEdit (grouped_edit [insert_at 1 0 ''abc'']) ''other.rs'' =
       [ApplyEdit (grouped_edit [insert_at 1 0 ''abc''])]"
    unfolding rd .
  from h1 g1 h2 g2 a b show ?thesis
    by (intro conjI)
qed

section \<open>Default text with a replacement pattern\<close>

text \<open>
  C5. The claim asks for the marker to be replaced by its default content. The default
  is passed to \<open>replace\<close> as the replacement template, where \<^verbatim>\<open>$$\<close> stands for one dollar
  sign: for \<^verbatim>\<open>${0:a$$b}\<close> the parser returns the text \<^verbatim>\<open>a$b\<close> with the range
  \<open>(0, 4)\<close>, not the default \<^verbatim>\<open>a$$b\<close>. A default without a dollar sign is inserted as
  it is (\<open>parseSnippet_regex_match\<close>, \<open>getSubstitution_plain\<close>).
\<close>

theorem C5_template_pattern_in_default:
  "parseSnippet ''${0:a$$b}'' = Some (''a$b'', (0, 4))
   \<and> ''a$b'' \<noteq> ''a$$b''"
  by code_simp

text \<open>
  C9. Every edit has its own \<open>workspace.applyEdit\<close>, in the order of the group, and a
  marker-bearing edit is applied alone (\<open>calls_run_loop\<close>); but its text is the parser's,
  so for the single edit \<^verbatim>\<open>${0:a$$b}\<close> the isolated application inserts \<^verbatim>\<open>a$b\<close>, not the
  default text \<^verbatim>\<open>a$$b\<close>, and the selection is four columns wide.
\<close>

theorem C9_isolated_edit_text:
  "applySnippetWorkspaceEdit (grouped_edit [insert_at 0 0 ''${0:a$$b}'']) ''f.rs'' =
     [ApplyEdit (grouped_edit [insert_at 0 0 ''a$b'']), SelectRange (Range_create 0 0 0 4)]"
  by code_simp

end
